theory Spec2Isabelle
  imports Main "HOL-Library.Char_ord" "HOL-Library.List_Lexorder"
begin

section \<open>tbl-template.py: column-name templates for database tables\<close>

text \<open>
  The script asks a PostgreSQL server for the tables of a schema and for their columns,
  and writes a spreadsheet with one sheet per table whose single row holds the column
  names. The embedding below follows \<^verbatim>\<open>src/tbl-template.py\<close> class by class.

  Python's \<^verbatim>\<open>str\<close> is modelled by \<^typ>\<open>string\<close>; a \<^typ>\<open>char\<close> stands for a
  code point below 256. \<^verbatim>\<open>sorted\<close> on strings compares code points
  lexicographically, which is the order of \<^typ>\<open>char list\<close> given by the two library
  theories imported above.
\<close>

subsection \<open>The string methods the script calls\<close>

text \<open>
  \<^verbatim>\<open>str.isspace\<close> for one code point below 256: tab, line feed, vertical tab,
  form feed, carriage return, the four separators 0x1C..0x1F, the space, NEL (0x85)
  and the no-break space (0xA0).
\<close>

definition isspace :: "char \<Rightarrow> bool" where
  "isspace c = (of_char c \<in> {9, 10, 11, 12, 13, 28, 29, 30, 31, 32, 133, 160 :: nat})"

text \<open>\<^verbatim>\<open>s.strip()\<close>: leading and trailing whitespace removed, nothing else.\<close>

definition strip :: "string \<Rightarrow> string" where
  "strip s = rev (dropWhile isspace (rev (dropWhile isspace s)))"

text \<open>
  \<^verbatim>\<open>s.split(sep)\<close> for a separator of one character: every occurrence cuts, empty
  pieces are kept, and the empty string gives one empty piece.
\<close>

fun split_on :: "char \<Rightarrow> string \<Rightarrow> string list" where
  "split_on sep [] = [[]]"
| "split_on sep (c # cs) =
     (if c = sep then [] # split_on sep cs
      else (case split_on sep cs of
              [] \<Rightarrow> [[c]]
            | w # ws \<Rightarrow> (c # w) # ws))"

text \<open>\<^verbatim>\<open>sep.join(pieces)\<close>.\<close>

fun str_join :: "string \<Rightarrow> string list \<Rightarrow> string" where
  "str_join sep [] = []"
| "str_join sep [w] = w"
| "str_join sep (w # v # ws) = w @ sep @ str_join sep (v # ws)"

subsection \<open>Exceptions and the result of a call\<close>

datatype error =
    EOFError            \<comment> \<open>\<^verbatim>\<open>getpass\<close> with no input left\<close>
  | OperationalError    \<comment> \<open>\<^verbatim>\<open>psycopg2.connect\<close> refused\<close>
  | InterfaceError      \<comment> \<open>a cursor asked of a closed connection\<close>
  | AttributeError      \<comment> \<open>a method called on \<^verbatim>\<open>None\<close>\<close>
  | TypeError           \<comment> \<open>\<^verbatim>\<open>io.open(None, ...)\<close>\<close>
  | OSError             \<comment> \<open>the output file cannot be opened for writing\<close>
  | DatabaseError       \<comment> \<open>a statement the server rejects\<close>

text \<open>
  A method is a function from the state before the call to its outcome and the state
  after it. The state is returned in both cases: what a method has changed before it
  raises stays changed.
\<close>

type_synonym ('s, 'r) action = "'s \<Rightarrow> (error + 'r) \<times> 's"

definition ok :: "'r \<Rightarrow> ('s, 'r) action" where
  "ok x s = (Inr x, s)"

definition raise :: "error \<Rightarrow> ('s, 'r) action" where
  "raise e s = (Inl e, s)"

definition seq :: "('s, 'a) action \<Rightarrow> ('a \<Rightarrow> ('s, 'b) action) \<Rightarrow> ('s, 'b) action" where
  "seq m f s = (case m s of (Inl e, s') \<Rightarrow> (Inl e, s') | (Inr x, s') \<Rightarrow> f x s')"

subsection \<open>The spreadsheet elements\<close>

record TableCell =
  valuetype :: string
  stringvalue :: string

record Table =
  name :: string
  rows :: "TableCell list list"

datatype path_state =
    Unwritable
  | Vacant
  | Truncated
  | Document "Table list"

subsection \<open>The server and the process\<close>

text \<open>
  The four statements the script sends. Each is a fixed text with one or two values
  put between single quotes by an f-string; the constructor keeps the values.
\<close>

datatype stmt =
    Select_tables string                \<comment> \<open>schema; \<^verbatim>\<open>ORDER BY table_name\<close>\<close>
  | Select_tables_ilike string string   \<comment> \<open>schema, pattern\<close>
  | Select_tables_eq string string      \<comment> \<open>schema, table\<close>
  | Select_columns string string        \<comment> \<open>schema, table\<close>

text \<open>
  The server is not part of the script; it is a parameter. \<open>tables\<close> are the rows
  (\<^verbatim>\<open>table_schema\<close>, \<^verbatim>\<open>table_name\<close>) of \<^verbatim>\<open>information_schema.tables\<close> and
  \<open>columns\<close> the rows (\<^verbatim>\<open>table_schema\<close>, \<^verbatim>\<open>table_name\<close>, \<^verbatim>\<open>column_name\<close>) of
  \<^verbatim>\<open>information_schema.columns\<close>, both in the order the catalog returns them.
  \<open>accepts host db user password\<close> tells whether a connection is granted.
  \<open>collation_key\<close> is the key by which the server's \<^verbatim>\<open>ORDER BY\<close> compares names,
  and \<open>ilike name pattern\<close> is the server's case-insensitive pattern operator.
  \<open>injected\<close> is the server's answer to a statement in which an interpolated value
  does not stay inside its quotes.
\<close>

record server =
  accepts :: "string \<Rightarrow> string \<Rightarrow> string \<Rightarrow> string \<Rightarrow> bool"
  tables :: "(string \<times> string) list"
  columns :: "(string \<times> string \<times> string) list"
  collation_key :: "string \<Rightarrow> string"
  ilike :: "string \<Rightarrow> string \<Rightarrow> bool"
  injected :: "stmt \<Rightarrow> error + string list"

text \<open>
  A value written between single quotes denotes itself as long as it holds no quote,
  no backslash and no NUL.
\<close>

definition literal_safe :: "string \<Rightarrow> bool" where
  "literal_safe v = list_all (\<lambda>c. c \<noteq> CHR 0x27 \<and> c \<noteq> CHR 0x5C \<and> c \<noteq> CHR 0x00) v"

definition tables_in :: "server \<Rightarrow> string \<Rightarrow> string list" where
  "tables_in srv s = map snd (filter (\<lambda>r. fst r = s) (tables srv))"

definition columns_of :: "server \<Rightarrow> string \<Rightarrow> string \<Rightarrow> string list" where
  "columns_of srv s t =
     map (\<lambda>r. snd (snd r)) (filter (\<lambda>r. fst r = s \<and> fst (snd r) = t) (columns srv))"

text \<open>The rows the server returns, one name per row.\<close>

fun answer :: "server \<Rightarrow> stmt \<Rightarrow> error + string list" where
  "answer srv (Select_tables s) =
     (if literal_safe s then Inr (sort_key (collation_key srv) (tables_in srv s))
      else injected srv (Select_tables s))"
| "answer srv (Select_tables_ilike s pat) =
     (if literal_safe s \<and> literal_safe pat
      then Inr (filter (\<lambda>t. ilike srv t pat) (tables_in srv s))
      else injected srv (Select_tables_ilike s pat))"
| "answer srv (Select_tables_eq s t) =
     (if literal_safe s \<and> literal_safe t
      then Inr (filter (\<lambda>t'. t' = t) (tables_in srv s))
      else injected srv (Select_tables_eq s t))"
| "answer srv (Select_columns s t) =
     (if literal_safe s \<and> literal_safe t then Inr (columns_of srv s t)
      else injected srv (Select_columns s t))"

text \<open>
  The process: \<open>conns\<close> holds every connection made so far, \<open>True\<close> while it is
  open, and a connection is known by its index; \<open>tty_in\<close> are the lines the user
  will type at secret prompts and \<open>tty_out\<close> the prompts shown; \<open>fs\<close> is the file
  system.
\<close>

record proc =
  conns :: "bool list"
  tty_in :: "string list"
  tty_out :: "string list"
  fs :: "string \<Rightarrow> path_state"

subsection \<open>class Database\<close>

record Database =
  host :: string
  db :: string
  user :: string
  password :: "string option"
  conn :: "nat option"

definition repr :: "'a Database_scheme \<Rightarrow> string" where
  "repr self =
     ''Database(host='' @ host self @ '', database='' @ db self @ '', user='' @ user self @ '')''"

definition get_password :: "('a Database_scheme \<times> proc, string) action" where
  "get_password = (\<lambda>(self, p).
     let shown = p\<lparr>tty_out := tty_out p @ [''Enter your password for '' @ repr self]\<rparr> in
     case tty_in p of
       [] \<Rightarrow> (Inl EOFError, self, shown)
     | line # rest \<Rightarrow> (Inr line, self, shown\<lparr>tty_in := rest\<rparr>))"

definition Database_init ::
  "string \<Rightarrow> string \<Rightarrow> string \<Rightarrow> string option \<Rightarrow> proc \<Rightarrow> (error + Database) \<times> proc" where
  "Database_init h d u pw p =
     (let self = \<lparr>host = h, db = d, user = u, password = pw, conn = None\<rparr> in
      case get_password (self, p) of
        (Inl e, self', p') \<Rightarrow> (Inl e, p')
      | (Inr typed, self', p') \<Rightarrow> (Inr (self'\<lparr>password := Some typed\<rparr>), p'))"

text \<open>\<^verbatim>\<open>conn.close()\<close> of the library: closing a closed connection changes nothing.\<close>

definition close_conn :: "nat \<Rightarrow> proc \<Rightarrow> proc" where
  "close_conn c p = p\<lparr>conns := (conns p)[c := False]\<rparr>"

definition open_db :: "server \<Rightarrow> ('a Database_scheme \<times> proc, unit) action" where
  "open_db srv = (\<lambda>(self, p).
     let p1 = (case conn self of None \<Rightarrow> p | Some c \<Rightarrow> close_conn c p) in
     case password self of
       None \<Rightarrow> (Inr (), self, p1)
     | Some pw \<Rightarrow>
         if accepts srv (host self) (db self) (user self) pw
         then (Inr (), self\<lparr>conn := Some (length (conns p1))\<rparr>, p1\<lparr>conns := conns p1 @ [True]\<rparr>)
         else (Inl OperationalError, self, p1))"

text \<open>A cursor is known by the connection it belongs to.\<close>

definition is_open :: "proc \<Rightarrow> nat \<Rightarrow> bool" where
  "is_open p c = (c < length (conns p) \<and> conns p ! c)"

definition conn_cursor :: "('a Database_scheme \<times> proc, nat) action" where
  "conn_cursor = (\<lambda>(self, p).
     case conn self of
       None \<Rightarrow> (Inl AttributeError, self, p)
     | Some c \<Rightarrow> if is_open p c then (Inr c, self, p) else (Inl InterfaceError, self, p))"

definition cursor :: "server \<Rightarrow> ('a Database_scheme \<times> proc, nat) action" where
  "cursor srv = (\<lambda>(self, p).
     seq (if conn self = None then open_db srv else ok ()) (\<lambda>_. conn_cursor) (self, p))"

definition close :: "'a Database_scheme \<times> proc \<Rightarrow> 'a Database_scheme \<times> proc" where
  "close = (\<lambda>(self, p).
     case conn self of
       None \<Rightarrow> (self, p)
     | Some c \<Rightarrow> (self\<lparr>conn := None\<rparr>, close_conn c p))"

definition execute :: "server \<Rightarrow> stmt \<Rightarrow> ('a Database_scheme \<times> proc, string list) action" where
  "execute srv sql = seq (cursor srv) (\<lambda>cur s. (answer srv sql, s))"

subsection \<open>class DatabaseQuery\<close>

record DatabaseQuery = Database +
  schema :: string
  tbls :: "string option"
  xcols :: "string option"
  tbl_list :: "string list"

definition match_tbl :: "server \<Rightarrow> string \<Rightarrow> (DatabaseQuery \<times> proc, string list) action" where
  "match_tbl srv tbl = (\<lambda>(self, p). execute srv (Select_tables_ilike (schema self) tbl) (self, p))"

text \<open>\<^verbatim>\<open>fetchone()\<close> is \<^verbatim>\<open>None\<close> exactly when the statement returned no row.\<close>

definition verify_tbl :: "server \<Rightarrow> string \<Rightarrow> (DatabaseQuery \<times> proc, bool) action" where
  "verify_tbl srv tbl = (\<lambda>(self, p).
     seq (execute srv (Select_tables_eq (schema self) tbl)) (\<lambda>c. ok (c \<noteq> [])) (self, p))"

text \<open>
  The body of the loop \<^verbatim>\<open>for tbl in tables\<close> of \<^verbatim>\<open>table_list\<close>, with the list
  \<^verbatim>\<open>tbl_list\<close> built so far as an argument; \<^verbatim>\<open>re.search('\\*', tbl)\<close> finds a
  star anywhere in the entry.
\<close>

definition table_entry ::
  "server \<Rightarrow> string \<Rightarrow> string list \<Rightarrow> (DatabaseQuery \<times> proc, string list) action" where
  "table_entry srv tbl acc =
     seq (if CHR ''*'' \<in> set tbl
          then seq (match_tbl srv (str_join ''%'' (split_on CHR ''*'' tbl)))
                 (\<lambda>found. ok (acc @ found))
          else ok acc)
       (\<lambda>acc1. seq (verify_tbl srv tbl) (\<lambda>real. ok (if real then acc1 @ [tbl] else acc1)))"

fun table_loop ::
  "server \<Rightarrow> string list \<Rightarrow> string list \<Rightarrow> (DatabaseQuery \<times> proc, string list) action" where
  "table_loop srv [] acc = ok acc"
| "table_loop srv (tbl # rest) acc = seq (table_entry srv tbl acc) (table_loop srv rest)"

text \<open>\<^verbatim>\<open>sorted(list(set(xs)))\<close>: the distinct elements in ascending order.\<close>

definition sorted_set :: "string list \<Rightarrow> string list" where
  "sorted_set xs = sort (remdups xs)"

definition table_list :: "server \<Rightarrow> (DatabaseQuery \<times> proc, string list) action" where
  "table_list srv = (\<lambda>(self, p).
     case tbls self of
       None \<Rightarrow>
         seq (execute srv (Select_tables (schema self))) (\<lambda>found. ok (sorted_set found)) (self, p)
     | Some requested \<Rightarrow>
         seq (table_loop srv (split_on CHR '','' (strip requested)) [])
           (\<lambda>found. ok (sorted_set found))
           (self\<lparr>tbls := Some (strip requested)\<rparr>, p))"

definition DatabaseQuery_init ::
  "server \<Rightarrow> string \<Rightarrow> string \<Rightarrow> string \<Rightarrow> string \<Rightarrow> string option \<Rightarrow> string option \<Rightarrow>
     proc \<Rightarrow> (error + DatabaseQuery) \<times> proc" where
  "DatabaseQuery_init srv h d u sch tb xc p =
     (case Database_init h d u None p of
        (Inl e, p') \<Rightarrow> (Inl e, p')
      | (Inr base, p') \<Rightarrow>
          (let self = \<lparr>host = host base, db = db base, user = user base,
                       password = password base, conn = conn base,
                       schema = sch, tbls = tb,
                       xcols = (case xc of None \<Rightarrow> None | Some x \<Rightarrow> Some (strip x)),
                       tbl_list = []\<rparr> in
           case table_list srv (self, p') of
             (Inl e, self', p'') \<Rightarrow> (Inl e, p'')
           | (Inr found, self', p'') \<Rightarrow> (Inr (self'\<lparr>tbl_list := found\<rparr>), p'')))"

definition column_list :: "server \<Rightarrow> string \<Rightarrow> (DatabaseQuery \<times> proc, string list) action" where
  "column_list srv tbl = (\<lambda>(self, p).
     seq (execute srv (Select_columns (schema self) tbl))
       (\<lambda>cols. case xcols self of
                  None \<Rightarrow> ok cols
                | Some x \<Rightarrow> ok (filter (\<lambda>col. col \<notin> set (split_on CHR '','' x)) cols))
       (self, p))"

subsection \<open>class OdsFile\<close>

record OdsFile =
  filename :: "string option"
  wkbook :: "Table list option"

definition OdsFile_init :: OdsFile where
  "OdsFile_init = \<lparr>filename = None, wkbook = None\<rparr>"

definition OdsFile_open :: "string \<Rightarrow> OdsFile \<Rightarrow> OdsFile" where
  "OdsFile_open fname self = self\<lparr>filename := Some fname, wkbook := Some []\<rparr>"

definition new_sheet :: "string \<Rightarrow> Table" where
  "new_sheet sheetname = \<lparr>name = sheetname, rows = []\<rparr>"

text \<open>
  \<^verbatim>\<open>add_row_to_sheet\<close> appends one row to the table, then one cell to that row for
  each item, in the order of the items.
\<close>

definition add_row_to_sheet :: "string list \<Rightarrow> Table \<Rightarrow> Table" where
  "add_row_to_sheet datarow odf_table =
     odf_table\<lparr>rows := rows odf_table @
       [foldl (\<lambda>tr item. tr @ [\<lparr>valuetype = ''string'', stringvalue = item\<rparr>]) [] datarow]\<rparr>"

definition add_sheet :: "Table \<Rightarrow> OdsFile \<Rightarrow> error + OdsFile" where
  "add_sheet odf_table self =
     (case wkbook self of
        None \<Rightarrow> Inl AttributeError
      | Some sheets \<Rightarrow> Inr (self\<lparr>wkbook := Some (sheets @ [odf_table])\<rparr>))"

definition save_close :: "OdsFile \<Rightarrow> proc \<Rightarrow> (error + unit) \<times> proc" where
  "save_close self p =
     (case filename self of
        None \<Rightarrow> (Inl TypeError, p)
      | Some fname \<Rightarrow>
          if fs p fname = Unwritable then (Inl OSError, p)
          else (case wkbook self of
                  None \<Rightarrow> (Inl AttributeError, p\<lparr>fs := (fs p)(fname := Truncated)\<rparr>)
                | Some sheets \<Rightarrow> (Inr (), p\<lparr>fs := (fs p)(fname := Document sheets)\<rparr>)))"

subsection \<open>The script\<close>

text \<open>
  The loop \<^verbatim>\<open>for tbl in db_inst.tbl_list\<close>: a sheet named after the table, one row
  of its columns, the sheet added to the workbook.
\<close>

fun sheet_loop ::
  "server \<Rightarrow> string list \<Rightarrow> OdsFile \<Rightarrow> (DatabaseQuery \<times> proc, OdsFile) action" where
  "sheet_loop srv [] wk = ok wk"
| "sheet_loop srv (tbl # rest) wk =
     seq (column_list srv tbl)
       (\<lambda>cols. case add_sheet (add_row_to_sheet cols (new_sheet tbl)) wk of
                  Inl e \<Rightarrow> raise e
                | Inr wk' \<Rightarrow> sheet_loop srv rest wk')"

record args =
  output_file :: string
  arg_host :: string
  arg_database :: string
  arg_schema :: string
  arg_username :: string
  arg_table_list :: "string option"
  arg_x_columns :: "string option"

definition main :: "server \<Rightarrow> args \<Rightarrow> proc \<Rightarrow> (error + unit) \<times> proc" where
  "main srv a p =
     (case DatabaseQuery_init srv (arg_host a) (arg_database a) (arg_username a)
             (arg_schema a) (arg_table_list a) (arg_x_columns a) p of
        (Inl e, p1) \<Rightarrow> (Inl e, p1)
      | (Inr db_inst, p1) \<Rightarrow>
          (case sheet_loop srv (tbl_list db_inst) (OdsFile_open (output_file a) OdsFile_init)
                  (db_inst, p1) of
             (Inl e, db2, p2) \<Rightarrow> (Inl e, p2)
           | (Inr wk, db2, p2) \<Rightarrow>
               (case save_close wk p2 of
                  (Inl e, p3) \<Rightarrow> (Inl e, p3)
                | (Inr u, p3) \<Rightarrow> (Inr (), snd (close (db2, p3))))))"

subsection \<open>Notions used to state the properties\<close>

text \<open>
  A manager can reach the server when it holds an open connection, or holds none and
  the server accepts its credentials.
\<close>

definition ready :: "server \<Rightarrow> 'a Database_scheme \<times> proc \<Rightarrow> bool" where
  "ready srv = (\<lambda>(self, p).
     case conn self of
       Some c \<Rightarrow> is_open p c
     | None \<Rightarrow> (case password self of
                 None \<Rightarrow> False
               | Some pw \<Rightarrow> accepts srv (host self) (db self) (user self) pw))"

text \<open>The state after the first successful use: a connection is held.\<close>

definition connected :: "'a Database_scheme \<times> proc \<Rightarrow> 'a Database_scheme \<times> proc" where
  "connected = (\<lambda>(self, p).
     case conn self of
       Some c \<Rightarrow> (self, p)
     | None \<Rightarrow> (self\<lparr>conn := Some (length (conns p))\<rparr>, p\<lparr>conns := conns p @ [True]\<rparr>))"

definition star_to_percent :: "string \<Rightarrow> string" where
  "star_to_percent = map (\<lambda>c. if c = CHR ''*'' then CHR ''%'' else c)"

text \<open>
  The names one requested entry adds: the tables of the schema that match its pattern
  when it holds a star, then the entry itself when it is a table of the schema.
\<close>

definition entry_names :: "server \<Rightarrow> string \<Rightarrow> string \<Rightarrow> string list" where
  "entry_names srv sch tbl =
     (if CHR ''*'' \<in> set tbl
      then filter (\<lambda>t. ilike srv t (star_to_percent tbl)) (tables_in srv sch) else []) @
     (if tbl \<in> set (tables_in srv sch) then [tbl] else [])"

text \<open>The number of open connections of the process.\<close>

definition live_count :: "proc \<Rightarrow> nat" where
  "live_count p = count_list (conns p) True"

text \<open>
  The manager's handle is a connection of the process, and every other connection is
  closed.
\<close>

definition sole_owner :: "'a Database_scheme \<times> proc \<Rightarrow> bool" where
  "sole_owner = (\<lambda>(self, p).
     case conn self of
       None \<Rightarrow> conns p = replicate (length (conns p)) False
     | Some c \<Rightarrow> c < length (conns p) \<and>
         (conns p)[c := False] = replicate (length (conns p)) False)"

text \<open>The calls a user of \<^verbatim>\<open>Database\<close> can make, and the state each leaves.\<close>

datatype call = Open_db | Cursor | Execute stmt | Close

fun perform :: "server \<Rightarrow> call \<Rightarrow> 'a Database_scheme \<times> proc \<Rightarrow> 'a Database_scheme \<times> proc" where
  "perform srv Open_db s = snd (open_db srv s)"
| "perform srv Cursor s = snd (cursor srv s)"
| "perform srv (Execute sql) s = snd (execute srv sql s)"
| "perform srv Close s = close s"

fun perform_all ::
  "server \<Rightarrow> call list \<Rightarrow> 'a Database_scheme \<times> proc \<Rightarrow> 'a Database_scheme \<times> proc" where
  "perform_all srv [] s = s"
| "perform_all srv (c # cs) s = perform_all srv cs (perform srv c s)"

subsection \<open>Example servers\<close>

text \<open>
  A pattern operator for the examples: \<open>%\<close> stands for any run of characters,
  \<open>_\<close> for any one character, and the letters A to Z are compared without case.
\<close>

definition ascii_lower :: "char \<Rightarrow> char" where
  "ascii_lower c =
     (if CHR ''A'' \<le> c \<and> c \<le> CHR ''Z'' then char_of (of_char c + (32::nat)) else c)"

fun like :: "string \<Rightarrow> string \<Rightarrow> bool" where
  "like [] t = (t = [])"
| "like (p # ps) t =
     (if p = CHR ''%''
      then (like ps t \<or> (case t of [] \<Rightarrow> False | c # cs \<Rightarrow> like (p # ps) cs))
      else (case t of [] \<Rightarrow> False | c # cs \<Rightarrow> (p = CHR ''_'' \<or> p = c) \<and> like ps cs))"

definition example_ilike :: "string \<Rightarrow> string \<Rightarrow> bool" where
  "example_ilike t pat = like (map ascii_lower pat) (map ascii_lower t)"

definition shop :: server where
  "shop = \<lparr>accepts = (\<lambda>h d u pw. pw = ''pw''),
     tables = [(''public'', ''x_b''), (''public'', ''orders''), (''other'', ''x_c''),
               (''public'', ''X_a'')],
     columns = [(''public'', ''orders'', ''id''), (''public'', ''orders'', ''name''),
                (''public'', ''orders'', ''created_at''), (''public'', ''orders'', ''total'')],
     collation_key = map ascii_lower,
     ilike = example_ilike,
     injected = (\<lambda>q. Inl DatabaseError)\<rparr>"

definition starred :: server where
  "starred = \<lparr>accepts = (\<lambda>h d u pw. pw = ''pw''),
     tables = [(''public'', ''x_*''), (''public'', ''x_b''), (''public'', ''orders'')],
     columns = [],
     collation_key = map ascii_lower,
     ilike = example_ilike,
     injected = (\<lambda>q. Inl DatabaseError)\<rparr>"

definition two_tables :: server where
  "two_tables = \<lparr>accepts = (\<lambda>h d u pw. pw = ''pw''),
     tables = [(''s'', ''b''), (''s'', ''a'')],
     columns = [(''s'', ''a'', ''col1''), (''s'', ''b'', ''col3''), (''s'', ''a'', ''col2'')],
     collation_key = map ascii_lower,
     ilike = example_ilike,
     injected = (\<lambda>q. Inl DatabaseError)\<rparr>"

text \<open>A fresh process whose user will type the given lines.\<close>

definition terminal :: "string list \<Rightarrow> proc" where
  "terminal typed = \<lparr>conns = [], tty_in = typed, tty_out = [], fs = (\<lambda>f. Vacant)\<rparr>"

text \<open>
  The object as \<^verbatim>\<open>DatabaseQuery.__init__\<close> has it when it calls \<^verbatim>\<open>table_list\<close>,
  for the schema \<open>public\<close> and the password \<open>pw\<close>.
\<close>

definition asking :: "string option \<Rightarrow> DatabaseQuery" where
  "asking requested = \<lparr>host = ''env3'', db = ''d'', user = ''u'', password = Some ''pw'',
     conn = None, schema = ''public'', tbls = requested, xcols = None, tbl_list = []\<rparr>"

subsection \<open>The specification's wording, for comparison\<close>

text \<open>
  The specification of \<^verbatim>\<open>table_list\<close> reads: split on commas, trim whitespace per
  entry.
\<close>

definition spec_table_entries :: "string \<Rightarrow> string list" where
  "spec_table_entries requested = map strip (split_on CHR '','' requested)"

text \<open>
  The specification of \<^verbatim>\<open>column_list\<close> reads: when the excluded list is present,
  remove every column whose name equals one of the raw comma-split tokens of the
  excluded string, with no trimming; otherwise return all columns.
\<close>

definition spec_resolve_columns :: "string list \<Rightarrow> string option \<Rightarrow> string list" where
  "spec_resolve_columns cols excluded =
     (case excluded of
        None \<Rightarrow> cols
      | Some e \<Rightarrow> filter (\<lambda>col. col \<notin> set (split_on CHR '','' e)) cols)"

section \<open>Properties\<close>

lemmas run_defs =
  DatabaseQuery_init_def Database_init_def get_password_def terminal_def table_list_def
  seq_def ok_def raise_def strip_def isspace_def table_entry_def match_tbl_def verify_tbl_def
  execute_def cursor_def open_db_def conn_cursor_def is_open_def literal_safe_def
  tables_in_def columns_of_def example_ilike_def ascii_lower_def sorted_set_def repr_def
  main_def column_list_def add_sheet_def add_row_to_sheet_def new_sheet_def OdsFile_open_def
  OdsFile_init_def save_close_def close_def close_conn_def asking_def

subsection \<open>Strings\<close>

lemma split_on_not_Nil: "split_on sep s \<noteq> []"
  by (induction s) (auto split: list.splits)

lemma str_join_Cons_Cons: "str_join sep ((c # w) # ws) = c # str_join sep (w # ws)"
  by (cases ws) simp_all

lemma join_split_star: "str_join ''%'' (split_on CHR ''*'' s) = star_to_percent s"
proof (induction s)
  case Nil
  show ?case by (simp add: star_to_percent_def)
next
  case (Cons c cs)
  obtain w ws where sp: "split_on CHR ''*'' cs = w # ws"
    using split_on_not_Nil [of "CHR ''*''" cs] by (cases "split_on CHR ''*'' cs") auto
  show ?case
  proof (cases "c = CHR ''*''")
    case True
    with Cons sp show ?thesis by (simp add: star_to_percent_def)
  next
    case False
    with Cons sp show ?thesis by (simp add: star_to_percent_def str_join_Cons_Cons)
  qed
qed

lemma literal_safe_star: "literal_safe (star_to_percent s) = literal_safe s"
  by (induction s) (auto simp: literal_safe_def star_to_percent_def)

lemma sorted_set_set: "set (sorted_set xs) = set xs"
  by (simp add: sorted_set_def)

lemma sorted_set_distinct: "distinct (sorted_set xs)"
  by (simp add: sorted_set_def)

lemma sorted_set_strict: "sorted_wrt (<) (sorted_set xs)"
  by (simp add: sorted_set_def strict_sorted_iff)

lemma verify_rows: "(filter (\<lambda>t'. t' = t) xs \<noteq> []) = (t \<in> set xs)"
  by (induction xs) auto

lemma sorted_set_cong: "set xs = set ys \<Longrightarrow> sorted_set xs = sorted_set ys"
  unfolding sorted_set_def
  by (metis sorted_list_of_set_sort_remdups)

lemma sorted_set_length: "length (sorted_set xs) = card (set xs)"
  by (simp add: sorted_set_def length_remdups_card_conv)

lemma distinct_count_list: "distinct xs \<Longrightarrow> x \<in> set xs \<Longrightarrow> count_list xs x = 1"
  by (induction xs) auto

lemma strip_blank: "list_all isspace r \<Longrightarrow> strip r = []"
proof -
  assume "list_all isspace r"
  then have d: "dropWhile isspace r = []"
    by (induction r) auto
  show ?thesis unfolding strip_def d by simp
qed

lemma split_on_no_sep: "sep \<notin> set w \<Longrightarrow> split_on sep w = [w]"
  by (induction w) auto

lemma set_strip: "set (strip r) \<subseteq> set r"
proof -
  have "set (strip r) \<subseteq> set (dropWhile isspace r)"
    unfolding strip_def using set_dropWhileD by fastforce
  then show ?thesis using set_dropWhileD by fastforce
qed

lemma schema_asking: "schema (asking requested) = ''public''"
  by (simp add: asking_def)

subsection \<open>Statements sent by a manager that can reach the server\<close>

lemma execute_ready: "ready srv s \<Longrightarrow> execute srv q s = (answer srv q, connected s)"
  by (cases s)
    (auto simp: ready_def connected_def execute_def cursor_def open_db_def conn_cursor_def
      is_open_def seq_def ok_def nth_append split: option.splits)

lemma ready_connected: "ready srv s \<Longrightarrow> ready srv (connected s)"
  by (cases s) (auto simp: ready_def connected_def is_open_def nth_append split: option.splits)

lemma connected_idem: "connected (connected s) = connected s"
  by (cases s) (auto simp: connected_def split: option.splits)

lemma schema_connected: "schema (fst (connected s)) = schema (fst s)"
  by (cases s) (auto simp: connected_def split: option.splits)

lemma xcols_connected: "xcols (fst (connected s)) = xcols (fst s)"
  by (cases s) (auto simp: connected_def split: option.splits)

lemma execute_Inr: "execute srv q s = (Inr found, s') \<Longrightarrow> answer srv q = Inr found"
  by (cases s)
    (auto simp: execute_def cursor_def open_db_def conn_cursor_def seq_def ok_def Let_def
      split: option.splits if_splits prod.splits sum.splits)

lemma execute_schema: "execute srv q s = (r, s') \<Longrightarrow> schema (fst s') = schema (fst s)"
  by (cases s)
    (auto simp: execute_def cursor_def open_db_def conn_cursor_def seq_def ok_def Let_def
      split: option.splits if_splits prod.splits sum.splits)

lemma ready_tbls: "ready srv (self\<lparr>tbls := t\<rparr>, p) = ready srv (self, p)"
  by (simp add: ready_def split: option.splits)

lemma execute_Inr_ready: "execute srv q s = (Inr found, s') \<Longrightarrow> ready srv s'"
  by (cases s)
    (auto simp: execute_def cursor_def open_db_def conn_cursor_def seq_def ok_def Let_def
      ready_def split: option.splits if_splits prod.splits sum.splits)

lemma execute_xcols: "execute srv q s = (r, s') \<Longrightarrow> xcols (fst s') = xcols (fst s)"
  by (cases s)
    (auto simp: execute_def cursor_def open_db_def conn_cursor_def seq_def ok_def Let_def
      split: option.splits if_splits prod.splits sum.splits)

subsection \<open>The loop over the requested entries\<close>

lemma table_entry_ready:
  assumes "ready srv s" and "literal_safe (schema (fst s))" and "literal_safe tbl"
  shows "table_entry srv tbl acc s =
           (Inr (acc @ entry_names srv (schema (fst s)) tbl), connected s)"
proof -
  obtain self p where s: "s = (self, p)" by (cases s)
  obtain self' p' where c: "connected s = (self', p')" by (cases "connected s")
  have r': "ready srv (self', p')" using assms(1) ready_connected [of srv s] c by simp
  have sch: "schema self' = schema self" using schema_connected [of s] s c by simp
  have idem: "connected (self', p') = (self', p')" using connected_idem [of s] c by simp
  have safe: "literal_safe (schema self)" using assms(2) s by simp
  show ?thesis
    using assms(1,3) safe r'
    by (simp add: s c [unfolded s] table_entry_def match_tbl_def verify_tbl_def seq_def ok_def
        execute_ready idem sch join_split_star literal_safe_star entry_names_def verify_rows)
qed

lemma table_loop_ready:
  assumes "ready srv s" and "literal_safe (schema (fst s))" and "list_all literal_safe es"
  shows "table_loop srv es acc s =
           (Inr (acc @ concat (map (entry_names srv (schema (fst s))) es)),
            if es = [] then s else connected s)"
  using assms
proof (induction es arbitrary: acc s)
  case Nil
  show ?case by (simp add: ok_def)
next
  case (Cons e es)
  have step: "table_entry srv e acc s =
      (Inr (acc @ entry_names srv (schema (fst s)) e), connected s)"
    using Cons.prems by (simp add: table_entry_ready)
  have rest: "table_loop srv es (acc @ entry_names srv (schema (fst s)) e) (connected s) =
      (Inr ((acc @ entry_names srv (schema (fst s)) e) @
            concat (map (entry_names srv (schema (fst s))) es)),
       if es = [] then connected s else connected (connected s))"
    using Cons.IH [of "connected s" "acc @ entry_names srv (schema (fst s)) e"] Cons.prems
    by (simp add: ready_connected schema_connected)
  show ?case
    by (simp add: seq_def step rest connected_idem)
qed

lemma match_tbl_Inr:
  "match_tbl srv pat s = (Inr found, s') \<Longrightarrow>
     answer srv (Select_tables_ilike (schema (fst s)) pat) = Inr found \<and>
     schema (fst s') = schema (fst s)"
  by (cases s) (auto simp: match_tbl_def dest: execute_Inr execute_schema)

lemma verify_tbl_Inr:
  "verify_tbl srv tbl s = (Inr real, s') \<Longrightarrow>
     (\<exists>found. answer srv (Select_tables_eq (schema (fst s)) tbl) = Inr found \<and>
        real = (found \<noteq> [])) \<and>
     schema (fst s') = schema (fst s)"
  by (cases s)
    (auto simp: verify_tbl_def seq_def ok_def split: prod.splits sum.splits
      dest: execute_Inr execute_schema)

lemma table_entry_Inr:
  assumes "table_entry srv tbl acc s = (Inr out, s')"
  shows "schema (fst s') = schema (fst s)"
    and "set acc \<subseteq> set out"
    and "literal_safe (schema (fst s)) \<Longrightarrow> literal_safe tbl \<Longrightarrow>
           out = acc @ entry_names srv (schema (fst s)) tbl"
proof -
  show "schema (fst s') = schema (fst s)"
    using assms
    by (auto simp: table_entry_def seq_def ok_def split: prod.splits sum.splits if_splits
        dest!: match_tbl_Inr verify_tbl_Inr)
  show "set acc \<subseteq> set out"
    using assms
    by (auto simp: table_entry_def seq_def ok_def split: prod.splits sum.splits if_splits)
  show "out = acc @ entry_names srv (schema (fst s)) tbl"
    if "literal_safe (schema (fst s))" and "literal_safe tbl"
    using assms that
    by (auto simp: table_entry_def seq_def ok_def entry_names_def join_split_star
        literal_safe_star verify_rows filter_empty_conv
        split: prod.splits sum.splits if_splits
        dest!: match_tbl_Inr verify_tbl_Inr)
qed

lemma table_loop_Inr:
  assumes "table_loop srv es acc s = (Inr out, s')"
  shows "schema (fst s') = schema (fst s)"
    and "set acc \<subseteq> set out"
    and "e \<in> set es \<Longrightarrow> literal_safe (schema (fst s)) \<Longrightarrow> literal_safe e \<Longrightarrow>
           set (entry_names srv (schema (fst s)) e) \<subseteq> set out"
  using assms
proof (induction es arbitrary: acc s)
  case Nil
  { case 1 then show ?case by (simp add: ok_def) }
  { case 2 then show ?case by (simp add: ok_def) }
  { case 3 then show ?case by simp }
next
  case (Cons x xs)
  { case 1
    then obtain mid s1 where a: "table_entry srv x acc s = (Inr mid, s1)"
        and b: "table_loop srv xs mid s1 = (Inr out, s')"
      by (auto simp: seq_def split: prod.splits sum.splits)
    show ?case using Cons.IH(1) [OF b] table_entry_Inr(1) [OF a] by simp }
  { case 2
    then obtain mid s1 where a: "table_entry srv x acc s = (Inr mid, s1)"
        and b: "table_loop srv xs mid s1 = (Inr out, s')"
      by (auto simp: seq_def split: prod.splits sum.splits)
    show ?case using Cons.IH(2) [OF b] table_entry_Inr(2) [OF a] by auto }
  { case 3
    then obtain mid s1 where a: "table_entry srv x acc s = (Inr mid, s1)"
        and b: "table_loop srv xs mid s1 = (Inr out, s')"
      by (auto simp: seq_def split: prod.splits sum.splits)
    have sch: "schema (fst s1) = schema (fst s)" using table_entry_Inr(1) [OF a] .
    show ?case
    proof (cases "e = x")
      case True
      have "mid = acc @ entry_names srv (schema (fst s)) x"
        using table_entry_Inr(3) [OF a] 3 True by simp
      then show ?thesis using Cons.IH(2) [OF b] True by auto
    next
      case False
      then have "e \<in> set xs" using 3 by simp
      then show ?thesis using Cons.IH(3) [OF _ _ _ b] 3 sch by simp
    qed }
qed

lemma entry_names_tables:
  "t \<in> set (entry_names srv sch e) \<Longrightarrow> t \<in> set (tables_in srv sch)"
  unfolding entry_names_def by (auto split: if_splits)

lemma entry_names_missing:
  "CHR ''*'' \<notin> set e \<Longrightarrow> e \<notin> set (tables_in srv sch) \<Longrightarrow> entry_names srv sch e = []"
  by (simp add: entry_names_def)

lemma verify_tbl_after:
  "verify_tbl srv tbl s = (Inr real, s') \<Longrightarrow>
     ready srv s' \<and> xcols (fst s') = xcols (fst s)"
  by (cases s)
    (auto simp: verify_tbl_def seq_def ok_def split: prod.splits sum.splits
      dest: execute_Inr_ready execute_xcols)

lemma match_tbl_after:
  "match_tbl srv pat s = (r, s') \<Longrightarrow> xcols (fst s') = xcols (fst s)"
  by (cases s) (auto simp: match_tbl_def dest: execute_xcols)

lemma table_entry_after:
  "table_entry srv tbl acc s = (Inr out, s') \<Longrightarrow>
     ready srv s' \<and> xcols (fst s') = xcols (fst s)"
  by (auto simp: table_entry_def seq_def ok_def split: prod.splits sum.splits if_splits
      dest!: match_tbl_after verify_tbl_after)

lemma table_loop_after:
  "table_loop srv es acc s = (Inr out, s') \<Longrightarrow> es \<noteq> [] \<or> ready srv s \<Longrightarrow>
     ready srv s' \<and> xcols (fst s') = xcols (fst s)"
proof (induction es arbitrary: acc s)
  case Nil
  then show ?case by (simp add: ok_def)
next
  case (Cons e es)
  from Cons.prems(1) obtain mid s1 where a: "table_entry srv e acc s = (Inr mid, s1)"
      and b: "table_loop srv es mid s1 = (Inr out, s')"
    by (auto simp: seq_def split: prod.splits sum.splits)
  have r1: "ready srv s1" and x1: "xcols (fst s1) = xcols (fst s)"
    using table_entry_after [OF a] by simp_all
  show ?case using Cons.IH [OF b] r1 x1 by simp
qed

subsection \<open>The table list\<close>

lemma table_list_ready:
  assumes "tbls (fst s) = Some r" and "ready srv s" and "literal_safe (schema (fst s))"
    and "list_all literal_safe (split_on CHR '','' (strip r))"
  shows "fst (table_list srv s) =
           Inr (sorted_set (concat (map (entry_names srv (schema (fst s)))
                  (split_on CHR '','' (strip r)))))"
proof -
  obtain self p where s: "s = (self, p)" by (cases s)
  have r: "ready srv (self\<lparr>tbls := Some (strip r)\<rparr>, p)"
    using assms(2) by (simp add: s ready_tbls)
  have loop: "table_loop srv (split_on CHR '','' (strip r)) [] (self\<lparr>tbls := Some (strip r)\<rparr>, p) =
      (Inr ([] @ concat (map (entry_names srv (schema self)) (split_on CHR '','' (strip r)))),
       connected (self\<lparr>tbls := Some (strip r)\<rparr>, p))"
    using table_loop_ready [OF r, of "split_on CHR '','' (strip r)" "[]"] assms(3,4)
    by (simp add: s split_on_not_Nil)
  show ?thesis
    using assms(1)
    by (simp add: s table_list_def seq_def ok_def loop del: table_loop.simps)
qed

lemma table_list_after:
  assumes "table_list srv s = (Inr xs, s')"
  shows "ready srv s' \<and> xcols (fst s') = xcols (fst s) \<and> schema (fst s') = schema (fst s)"
proof (cases "tbls (fst s)")
  case None
  then obtain found where e: "execute srv (Select_tables (schema (fst s))) s = (Inr found, s')"
    using assms
    by (cases s) (auto simp: table_list_def seq_def ok_def split: prod.splits sum.splits)
  show ?thesis
    using execute_Inr_ready [OF e] execute_xcols [OF e] execute_schema [OF e] by simp
next
  case (Some r)
  obtain self p where s: "s = (self, p)" by (cases s)
  obtain found where loop: "table_loop srv (split_on CHR '','' (strip r)) []
        (self\<lparr>tbls := Some (strip r)\<rparr>, p) = (Inr found, s')"
    using assms Some
    by (auto simp: s table_list_def seq_def ok_def split: prod.splits sum.splits
        simp del: table_loop.simps)
  show ?thesis
    using table_loop_after [OF loop] table_loop_Inr(1) [OF loop]
    by (simp add: s split_on_not_Nil)
qed


text \<open>
  C7. For every input, with the requested list absent or present and any mix of
  wildcard and literal entries, the list \<^verbatim>\<open>table_list\<close> returns holds each table name
  at most once and is sorted ascending by name.
\<close>

theorem table_list_sorted_distinct:
  assumes "table_list srv s = (Inr xs, s')"
  shows "sorted_wrt (<) xs \<and> distinct xs"
proof -
  obtain found where "xs = sorted_set found"
    using assms
    by (cases s)
      (auto simp: table_list_def seq_def ok_def split: option.splits prod.splits sum.splits)
  then show ?thesis
    by (simp add: sorted_set_strict sorted_set_distinct)
qed

theorem table_list_sorted_distinct_witness:
  "fst (table_list shop (asking (Some ''x_*,orders,x_b''), terminal [])) =
     Inr [''X_a'', ''orders'', ''x_b''] \<and>
   sorted_wrt (<) [''X_a'', ''orders'', ''x_b''] \<and> distinct [''X_a'', ''orders'', ''x_b'']"
proof -
  have val: "fst (table_list shop (asking (Some ''x_*,orders,x_b''), terminal [])) =
      Inr [''X_a'', ''orders'', ''x_b'']"
    by code_simp
  then obtain s' where run: "table_list shop (asking (Some ''x_*,orders,x_b''), terminal []) =
      (Inr [''X_a'', ''orders'', ''x_b''], s')"
    by (cases "table_list shop (asking (Some ''x_*,orders,x_b''), terminal [])") simp
  show ?thesis
    using table_list_sorted_distinct [OF run] val by simp
qed

text \<open>
  C6. When no table list is requested, \<^verbatim>\<open>table_list\<close> returns exactly the table names
  the catalog holds for the schema: the same set of names, as many entries as there are
  distinct names, in strictly ascending order. The manager must be able to reach the
  server and the schema name must stay inside its quotes.
\<close>

theorem table_list_all:
  assumes "tbls (fst s) = None" and "ready srv s" and "literal_safe (schema (fst s))"
  shows "fst (table_list srv s) = Inr (sorted_set (tables_in srv (schema (fst s)))) \<and>
         set (sorted_set (tables_in srv (schema (fst s)))) = set (tables_in srv (schema (fst s))) \<and>
         length (sorted_set (tables_in srv (schema (fst s)))) = card (set (tables_in srv (schema (fst s)))) \<and>
         sorted_wrt (<) (sorted_set (tables_in srv (schema (fst s))))"
proof -
  obtain self p where s: "s = (self, p)" by (cases s)
  have same: "sorted_set (sort_key (collation_key srv) (tables_in srv (schema self))) =
      sorted_set (tables_in srv (schema self))"
    by (rule sorted_set_cong) simp
  have "fst (table_list srv s) = Inr (sorted_set (tables_in srv (schema (fst s))))"
    using assms by (simp add: s table_list_def seq_def ok_def execute_ready same)
  then show ?thesis
    by (simp add: sorted_set_set sorted_set_length sorted_set_strict)
qed

theorem table_list_all_witness:
  "tbls (fst (asking None, terminal [])) = None \<and>
   ready shop (asking None, terminal []) \<and>
   literal_safe (schema (fst (asking None, terminal []))) \<and>
   fst (table_list shop (asking None, terminal [])) = Inr [''X_a'', ''orders'', ''x_b''] \<and>
   length [''X_a'', ''orders'', ''x_b''] = card (set (tables_in shop ''public''))"
proof -
  have h1: "tbls (fst (asking None, terminal [])) = None" by (simp add: asking_def)
  have h2: "ready shop (asking None, terminal [])" by (simp add: ready_def asking_def shop_def)
  have h3: "literal_safe (schema (fst (asking None, terminal [])))" by code_simp
  have sch: "schema (fst (asking None, terminal [])) = ''public''" by (simp add: asking_def)
  have v: "sorted_set (tables_in shop ''public'') = [''X_a'', ''orders'', ''x_b'']" by code_simp
  show ?thesis
    using table_list_all [OF h1 h2 h3] h1 h2 h3 by (simp add: schema_asking v)
qed

text \<open>
  C10. When the requested list is present but empty or made of whitespace only,
  \<^verbatim>\<open>table_list\<close> returns the empty list: the one entry it finds is the empty string,
  which names no table. It does not fall back to all the tables of the schema.
\<close>

theorem table_list_blank:
  assumes "tbls (fst s) = Some r" and "list_all isspace r" and "ready srv s"
    and "literal_safe (schema (fst s))" and "[] \<notin> set (tables_in srv (schema (fst s)))"
  shows "fst (table_list srv s) = Inr []"
proof -
  obtain self p where s: "s = (self, p)" by (cases s)
  have r: "ready srv (self\<lparr>tbls := Some []\<rparr>, p)"
    using assms(3) by (simp add: s ready_tbls)
  have loop: "table_loop srv [[]] [] (self\<lparr>tbls := Some []\<rparr>, p) =
      (Inr ([] @ concat (map (entry_names srv (schema self)) [[]])),
       connected (self\<lparr>tbls := Some []\<rparr>, p))"
    using table_loop_ready [OF r, of "[[]]" "[]"] assms(4)
    by (simp add: s literal_safe_def)
  have none: "entry_names srv (schema self) [] = []"
    using assms(5) by (simp add: s entry_names_def)
  show ?thesis
    using assms(1)
    by (simp add: s table_list_def strip_blank [OF assms(2)] seq_def ok_def loop none sorted_set_def
        del: table_loop.simps)
qed

theorem table_list_blank_witness:
  "tbls (fst (asking (Some ''  ''), terminal [])) = Some ''  '' \<and>
   list_all isspace ''  '' \<and>
   ready shop (asking (Some ''  ''), terminal []) \<and>
   literal_safe (schema (fst (asking (Some ''  ''), terminal []))) \<and>
   [] \<notin> set (tables_in shop (schema (fst (asking (Some ''  ''), terminal [])))) \<and>
   fst (table_list shop (asking (Some ''  ''), terminal [])) = Inr [] \<and>
   tables_in shop ''public'' = [''x_b'', ''orders'', ''X_a'']"
proof -
  have h1: "tbls (fst (asking (Some ''  ''), terminal [])) = Some ''  ''" by (simp add: asking_def)
  have h2: "list_all isspace ''  ''" by code_simp
  have h3: "ready shop (asking (Some ''  ''), terminal [])"
    by (simp add: ready_def asking_def shop_def)
  have h4: "literal_safe (schema (fst (asking (Some ''  ''), terminal [])))" by code_simp
  have h5: "[] \<notin> set (tables_in shop (schema (fst (asking (Some ''  ''), terminal []))))"
    by code_simp
  have v: "tables_in shop ''public'' = [''x_b'', ''orders'', ''X_a'']" by code_simp
  show ?thesis
    using table_list_blank [OF h1 h2 h3 h4 h5] h1 h2 h3 h4 h5 v by simp
qed

text \<open>
  C5. A requested entry with no star that names no table of the schema is left out
  without an error: \<^verbatim>\<open>table_list\<close> returns, the entry is not in its result, and the
  result is the one the other entries give.
\<close>

theorem table_list_drops_missing:
  assumes "tbls (fst s) = Some r" and "ready srv s" and "literal_safe (schema (fst s))"
    and "list_all literal_safe (split_on CHR '','' (strip r))"
    and "e \<in> set (split_on CHR '','' (strip r))"
    and "CHR ''*'' \<notin> set e"
    and "e \<notin> set (tables_in srv (schema (fst s)))"
  shows "fst (table_list srv s) =
           Inr (sorted_set (concat (map (entry_names srv (schema (fst s)))
                  (removeAll e (split_on CHR '','' (strip r)))))) \<and>
         e \<notin> set (sorted_set (concat (map (entry_names srv (schema (fst s)))
                  (removeAll e (split_on CHR '','' (strip r))))))"
proof -
  let ?f = "entry_names srv (schema (fst s))"
  let ?es = "split_on CHR '','' (strip r)"
  have none: "?f e = []"
    using assms(6,7) by (rule entry_names_missing)
  have same: "set (concat (map ?f ?es)) = set (concat (map ?f (removeAll e ?es)))"
    using none by auto
  have run: "fst (table_list srv s) = Inr (sorted_set (concat (map ?f ?es)))"
    using assms(1-4) by (rule table_list_ready)
  have out: "e \<notin> set (concat (map ?f (removeAll e ?es)))"
    using assms(7) entry_names_tables [of e srv "schema (fst s)"] by auto
  show ?thesis
    using run out sorted_set_cong [OF same] by (simp add: sorted_set_set)
qed

theorem table_list_drops_missing_witness:
  "tbls (fst (asking (Some ''orders,nosuch,x_*''), terminal [])) = Some ''orders,nosuch,x_*'' \<and>
   ready shop (asking (Some ''orders,nosuch,x_*''), terminal []) \<and>
   literal_safe ''public'' \<and>
   list_all literal_safe (split_on CHR '','' (strip ''orders,nosuch,x_*'')) \<and>
   ''nosuch'' \<in> set (split_on CHR '','' (strip ''orders,nosuch,x_*'')) \<and>
   CHR ''*'' \<notin> set ''nosuch'' \<and>
   ''nosuch'' \<notin> set (tables_in shop ''public'') \<and>
   fst (table_list shop (asking (Some ''orders,nosuch,x_*''), terminal [])) =
     Inr [''X_a'', ''orders'', ''x_b''] \<and>
   ''nosuch'' \<notin> set [''X_a'', ''orders'', ''x_b'']"
proof -
  let ?s = "(asking (Some ''orders,nosuch,x_*''), terminal [])"
  have sch: "schema (fst ?s) = ''public''" by (simp add: asking_def)
  have h1: "tbls (fst ?s) = Some ''orders,nosuch,x_*''" by (simp add: asking_def)
  have h2: "ready shop ?s" by (simp add: ready_def asking_def shop_def)
  have h3: "literal_safe (schema (fst ?s))" by code_simp
  have h4: "list_all literal_safe (split_on CHR '','' (strip ''orders,nosuch,x_*''))" by code_simp
  have h5: "''nosuch'' \<in> set (split_on CHR '','' (strip ''orders,nosuch,x_*''))" by code_simp
  have h6: "CHR ''*'' \<notin> set ''nosuch''" by simp
  have h7: "''nosuch'' \<notin> set (tables_in shop (schema (fst ?s)))" by code_simp
  have v: "sorted_set (concat (map (entry_names shop ''public'')
      (removeAll ''nosuch'' (split_on CHR '','' (strip ''orders,nosuch,x_*''))))) =
      [''X_a'', ''orders'', ''x_b'']" by code_simp
  show ?thesis
    using table_list_drops_missing [OF h1 h2 h3 h4 h5 h6 h7] h1 h2 h3 h4 h5 h7
    by (simp add: schema_asking v)
qed

text \<open>
  C1. For a requested entry that holds a star, the pattern sent to the server is the
  entry with every star replaced by \<open>%\<close>; every table of the schema that the server's
  case-insensitive operator matches against that pattern is in the result; and the
  entry itself, star included, is also looked up as a table name: when it is one, it is
  in the result exactly once.
\<close>

theorem table_list_wildcard:
  assumes "table_list srv s = (Inr xs, s')" and "tbls (fst s) = Some r"
    and "e \<in> set (split_on CHR '','' (strip r))" and "CHR ''*'' \<in> set e"
    and "literal_safe (schema (fst s))" and "literal_safe e"
  shows "str_join ''%'' (split_on CHR ''*'' e) =
           map (\<lambda>c. if c = CHR ''*'' then CHR ''%'' else c) e \<and>
         (\<forall>t. t \<in> set (tables_in srv (schema (fst s))) \<and>
               ilike srv t (str_join ''%'' (split_on CHR ''*'' e)) \<longrightarrow> t \<in> set xs) \<and>
         (e \<in> set (tables_in srv (schema (fst s))) \<longrightarrow> count_list xs e = 1)"
proof -
  obtain self p where s: "s = (self, p)" by (cases s)
  obtain found where loop: "table_loop srv (split_on CHR '','' (strip r)) []
        (self\<lparr>tbls := Some (strip r)\<rparr>, p) = (Inr found, s')"
      and xs: "xs = sorted_set found"
    using assms(1,2)
    by (auto simp: s table_list_def seq_def ok_def split: prod.splits sum.splits
        simp del: table_loop.simps)
  have sub: "set (entry_names srv (schema self) e) \<subseteq> set found"
    using table_loop_Inr(3) [OF loop assms(3)] assms(5,6) by (simp add: s)
  have pat: "str_join ''%'' (split_on CHR ''*'' e) = star_to_percent e"
    by (rule join_split_star)
  have matched: "t \<in> set xs"
    if "t \<in> set (tables_in srv (schema self))" and "ilike srv t (star_to_percent e)" for t
    using that sub assms(4) by (auto simp: xs sorted_set_set entry_names_def)
  have literal: "count_list xs e = 1" if "e \<in> set (tables_in srv (schema self))"
  proof -
    have "e \<in> set xs" using that sub by (auto simp: xs sorted_set_set entry_names_def)
    then show ?thesis by (simp add: xs distinct_count_list sorted_set_distinct)
  qed
  show ?thesis
    using matched literal by (simp add: pat s) (simp add: star_to_percent_def)
qed

theorem table_list_wildcard_witness:
  "fst (table_list starred (asking (Some ''x_*''), terminal [])) = Inr [''x_*'', ''x_b''] \<and>
   str_join ''%'' (split_on CHR ''*'' ''x_*'') = ''x_%'' \<and>
   ilike starred ''x_b'' ''x_%'' \<and>
   ''x_b'' \<in> set [''x_*'', ''x_b''] \<and>
   ''x_*'' \<in> set (tables_in starred ''public'') \<and>
   count_list [''x_*'', ''x_b''] ''x_*'' = 1"
proof -
  let ?s = "(asking (Some ''x_*''), terminal [])"
  have val: "fst (table_list starred ?s) = Inr [''x_*'', ''x_b'']" by code_simp
  then obtain s' where run: "table_list starred ?s = (Inr [''x_*'', ''x_b''], s')"
    by (cases "table_list starred ?s") simp
  have sch: "schema (fst ?s) = ''public''" by (simp add: asking_def)
  have h2: "tbls (fst ?s) = Some ''x_*''" by (simp add: asking_def)
  have h3: "''x_*'' \<in> set (split_on CHR '','' (strip ''x_*''))" by code_simp
  have h4: "CHR ''*'' \<in> set ''x_*''" by simp
  have h5: "literal_safe (schema (fst ?s))" by code_simp
  have h6: "literal_safe ''x_*''" by code_simp
  have pat: "str_join ''%'' (split_on CHR ''*'' ''x_*'') = ''x_%''" by code_simp
  have m: "ilike starred ''x_b'' ''x_%''" by code_simp
  have t1: "''x_b'' \<in> set (tables_in starred ''public'')" by code_simp
  have t2: "''x_*'' \<in> set (tables_in starred ''public'')" by code_simp
  show ?thesis
    using table_list_wildcard [OF run h2 h3 h4 h5 h6] val m t1 t2
    by (simp add: schema_asking pat)
qed

text \<open>
  C2, as the specification words it, asks that every entry be trimmed. The script trims
  the requested string as a whole and then splits it: in \<open>x_b, orders\<close> the second entry
  keeps its leading space and is not found, although \<open>orders\<close> is a table.
\<close>

theorem table_list_entry_not_trimmed:
  "fst (table_list shop (asking (Some ''x_b, orders''), terminal [])) = Inr [''x_b''] \<and>
   split_on CHR '','' (strip ''x_b, orders'') = [''x_b'', '' orders''] \<and>
   spec_table_entries ''x_b, orders'' = [''x_b'', ''orders''] \<and>
   ''orders'' \<in> set (tables_in shop ''public'')"
  by code_simp

text \<open>
  C2, amended. When the requested list is present, the whole string is stripped of
  leading and trailing whitespace and then split on commas, and each entry is matched
  and verified as split, with no trimming of its own. A request of one entry written
  with spaces around it is therefore matched without them.
\<close>

theorem table_list_entries:
  assumes "tbls (fst s) = Some r" and "ready srv s" and "literal_safe (schema (fst s))"
    and "list_all literal_safe (split_on CHR '','' (strip r))"
  shows "fst (table_list srv s) =
           Inr (sorted_set (concat (map (entry_names srv (schema (fst s)))
                  (split_on CHR '','' (strip r))))) \<and>
         (CHR '','' \<notin> set r \<longrightarrow> split_on CHR '','' (strip r) = [strip r])"
proof -
  have "split_on CHR '','' (strip r) = [strip r]" if "CHR '','' \<notin> set r"
    using that set_strip [of r] by (intro split_on_no_sep) auto
  then show ?thesis
    using table_list_ready [OF assms] by simp
qed

theorem table_list_entries_witness:
  "tbls (fst (asking (Some '' orders ''), terminal [])) = Some '' orders '' \<and>
   ready shop (asking (Some '' orders ''), terminal []) \<and>
   literal_safe ''public'' \<and>
   list_all literal_safe (split_on CHR '','' (strip '' orders '')) \<and>
   CHR '','' \<notin> set '' orders '' \<and>
   split_on CHR '','' (strip '' orders '') = [''orders''] \<and>
   fst (table_list shop (asking (Some '' orders ''), terminal [])) = Inr [''orders'']"
proof -
  let ?s = "(asking (Some '' orders ''), terminal [])"
  have sch: "schema (fst ?s) = ''public''" by (simp add: asking_def)
  have h1: "tbls (fst ?s) = Some '' orders ''" by (simp add: asking_def)
  have h2: "ready shop ?s" by (simp add: ready_def asking_def shop_def)
  have h3: "literal_safe (schema (fst ?s))" by code_simp
  have h4: "list_all literal_safe (split_on CHR '','' (strip '' orders ''))" by code_simp
  have h5: "CHR '','' \<notin> set '' orders ''" by simp
  have st: "strip '' orders '' = ''orders''" by code_simp
  have v: "sorted_set (entry_names shop ''public'' ''orders'') = [''orders'']"
    by code_simp
  show ?thesis
    using table_list_entries [OF h1 h2 h3 h4] h1 h2 h3 h4 h5
    by (simp add: schema_asking st v)
qed

subsection \<open>The column list\<close>

lemma DatabaseQuery_init_after:
  assumes "DatabaseQuery_init srv h d u sch tb xc p = (Inr self, p')"
  shows "ready srv (self, p') \<and> schema self = sch \<and>
         xcols self = (case xc of None \<Rightarrow> None | Some e \<Rightarrow> Some (strip e))"
proof -
  let ?xc = "case xc of None \<Rightarrow> None | Some e \<Rightarrow> Some (strip e)"
  obtain r1 p1 where d: "Database_init h d u None p = (r1, p1)"
    by (cases "Database_init h d u None p")
  obtain base where b: "r1 = Inr base"
    using assms d by (cases r1) (simp_all add: DatabaseQuery_init_def)
  let ?self0 = "\<lparr>host = host base, db = db base, user = user base, password = password base,
      conn = conn base, schema = sch, tbls = tb, xcols = ?xc, tbl_list = []\<rparr>"
  obtain r2 s1 p2 where t: "table_list srv (?self0, p1) = (r2, s1, p2)"
    by (metis prod_cases3)
  obtain found where f: "r2 = Inr found" and self: "self = s1\<lparr>tbl_list := found\<rparr>"
      and p': "p' = p2"
    using assms d b t by (cases r2) (simp_all add: DatabaseQuery_init_def)
  have run: "table_list srv (?self0, p1) = (Inr found, s1, p')"
    using t f p' by simp
  have "ready srv (s1, p') \<and> xcols s1 = ?xc \<and> schema s1 = sch"
    using table_list_after [OF run] by simp
  then show ?thesis
    by (simp add: self ready_def split: option.splits)
qed

lemma column_list_ready:
  assumes "ready srv s" and "literal_safe (schema (fst s))" and "literal_safe tbl"
  shows "fst (column_list srv tbl s) =
           Inr (spec_resolve_columns (columns_of srv (schema (fst s)) tbl) (xcols (fst s)))"
  using assms
  by (cases s)
    (simp add: column_list_def seq_def ok_def execute_ready spec_resolve_columns_def
      split: option.splits)

text \<open>
  C3, as the specification words it, compares the column names with the raw tokens of
  the excluded string. The constructor strips that string first: for the excluded list
  \<open> id\<close> the script removes the column \<open>id\<close>, which the raw token does not equal.
\<close>

theorem column_list_raw_tokens_counterexample:
  "(case DatabaseQuery_init shop ''env3'' ''d'' ''u'' ''public'' None (Some '' id'')
           (terminal [''pw'']) of
      (Inl e, p') \<Rightarrow> False
    | (Inr self, p') \<Rightarrow>
        fst (column_list shop ''orders'' (self, p')) = Inr [''name'', ''created_at'', ''total'']) \<and>
   spec_resolve_columns (columns_of shop ''public'' ''orders'') (Some '' id'') =
     [''id'', ''name'', ''created_at'', ''total'']"
  by code_simp

text \<open>
  C3, amended. When the excluded list is present, \<^verbatim>\<open>column_list\<close> returns the catalog's
  columns of the table, in the catalog's order, without the columns whose name equals
  one of the comma-split tokens of the excluded string after its leading and trailing
  whitespace has been stripped as a whole; the tokens themselves are not trimmed. For
  \<open>id,created_at\<close> and the columns \<open>id\<close>, \<open>name\<close>, \<open>created_at\<close>, \<open>total\<close> the result
  is \<open>name\<close>, \<open>total\<close>. When the excluded list is absent, all columns are returned.
\<close>

theorem column_list_excludes:
  assumes "DatabaseQuery_init srv h d u sch tb xc p = (Inr self, p')"
    and "literal_safe sch" and "literal_safe tbl"
  shows "fst (column_list srv tbl (self, p')) =
           Inr (spec_resolve_columns (columns_of srv sch tbl) (map_option strip xc))"
proof -
  have after: "ready srv (self, p')" "schema self = sch"
      "xcols self = (case xc of None \<Rightarrow> None | Some e \<Rightarrow> Some (strip e))"
    using DatabaseQuery_init_after [OF assms(1)] by simp_all
  have "xcols self = map_option strip xc"
    using after(3) by (cases xc) simp_all
  then show ?thesis
    using column_list_ready [OF after(1), of tbl] assms(2,3) after(2) by simp
qed

theorem column_list_excludes_witness:
  "(case DatabaseQuery_init shop ''env3'' ''d'' ''u'' ''public'' None (Some ''id,created_at'')
           (terminal [''pw'']) of
      (Inl e, p') \<Rightarrow> False
    | (Inr self, p') \<Rightarrow>
        fst (column_list shop ''orders'' (self, p')) = Inr [''name'', ''total'']) \<and>
   literal_safe ''public'' \<and> literal_safe ''orders'' \<and>
   columns_of shop ''public'' ''orders'' = [''id'', ''name'', ''created_at'', ''total'']"
proof -
  let ?i = "DatabaseQuery_init shop ''env3'' ''d'' ''u'' ''public'' None (Some ''id,created_at'')
      (terminal [''pw''])"
  have "case ?i of (Inl e, p') \<Rightarrow> False | (Inr self, p') \<Rightarrow> True" by code_simp
  then obtain self p' where i: "?i = (Inr self, p')"
    by (cases ?i) (auto split: sum.splits)
  have h2: "literal_safe ''public''" by code_simp
  have h3: "literal_safe ''orders''" by code_simp
  have cols: "columns_of shop ''public'' ''orders'' = [''id'', ''name'', ''created_at'', ''total'']"
    by code_simp
  have v: "spec_resolve_columns [''id'', ''name'', ''created_at'', ''total'']
      (Some (strip ''id,created_at'')) = [''name'', ''total'']" by code_simp
  show ?thesis
    using column_list_excludes [OF i h2 h3] h2 h3 by (simp add: i cols v)
qed

subsection \<open>The constructor of the connection manager\<close>

text \<open>
  C4. A password handed to \<^verbatim>\<open>Database.__init__\<close> should be used as given and the
  prompt shown only when none is handed in. The constructor stores the argument and
  then overwrites it with the prompt's reply: called with the password \<open>secret\<close>
  while the user types \<open>typed\<close>, it shows the prompt and keeps \<open>typed\<close>.
\<close>

theorem Database_init_overwrites_password:
  "Database_init ''h'' ''d'' ''u'' (Some ''secret'') (terminal [''typed'']) =
     (Inr \<lparr>host = ''h'', db = ''d'', user = ''u'', password = Some ''typed'', conn = None\<rparr>,
      \<lparr>conns = [], tty_in = [],
       tty_out = [''Enter your password for Database(host=h, database=d, user=u)''],
       fs = (\<lambda>f. Vacant)\<rparr>)"
  by (simp add: Database_init_def get_password_def terminal_def repr_def)

subsection \<open>The connections of a manager\<close>

lemma count_replicate_False: "count_list (replicate n False) True = 0"
  by (induction n) simp_all

lemma count_list_update_le: "count_list bs True \<le> Suc (count_list (bs[c := False]) True)"
proof (induction bs arbitrary: c)
  case Nil
  show ?case by simp
next
  case (Cons b bs)
  show ?case
  proof (cases c)
    case 0
    then show ?thesis by simp
  next
    case (Suc n)
    then show ?thesis using Cons.IH [of n] by simp
  qed
qed

lemma sole_owner_live_count: "sole_owner s \<Longrightarrow> live_count (snd s) \<le> 1"
proof -
  assume inv: "sole_owner s"
  obtain self p where s: "s = (self, p)" by (cases s)
  show ?thesis
  proof (cases "conn self")
    case None
    then have "conns p = replicate (length (conns p)) False"
      using inv by (simp add: s sole_owner_def)
    then have "count_list (conns p) True = 0"
      using count_replicate_False by metis
    then show ?thesis by (simp add: s live_count_def)
  next
    case (Some c)
    then have "(conns p)[c := False] = replicate (length (conns p)) False"
      using inv by (simp add: s sole_owner_def)
    then have "count_list ((conns p)[c := False]) True = 0"
      using count_replicate_False by metis
    then show ?thesis
      using count_list_update_le [of "conns p" c] by (simp add: s live_count_def)
  qed
qed

lemma replicate_update_False: "(replicate n False)[c := False] = replicate n False"
  by (metis length_replicate list_update_beyond list_update_id not_le_imp_less nth_replicate)

lemma sole_owner_open_db: "sole_owner s \<Longrightarrow> sole_owner (snd (open_db srv s))"
proof -
  assume inv: "sole_owner s"
  obtain self p where s: "s = (self, p)" by (cases s)
  let ?n = "length (conns p)"
  define p1 where "p1 = (case conn self of None \<Rightarrow> p | Some c \<Rightarrow> close_conn c p)"
  have closed: "conns p1 = replicate ?n False"
    using inv by (auto simp: p1_def s sole_owner_def close_conn_def split: option.splits)
  have len: "length (conns p1) = ?n"
    using closed by (metis length_replicate)
  have held: "c < ?n" if "conn self = Some c" for c
    using inv that by (simp add: s sole_owner_def)
  have grown: "(conns p1 @ [True])[?n := False] = replicate (Suc ?n) False"
    using closed len by (metis list_update_length replicate_append_same  append_Nil2 replicate_Suc list_update_code(2) list_update_append1 lessI length_append_singleton)
  show ?thesis
  proof (cases "password self")
    case None
    then have "snd (open_db srv s) = (self, p1)"
      by (simp add: s open_db_def p1_def Let_def)
    then show ?thesis
      using closed len held by (auto simp: sole_owner_def replicate_update_False split: option.splits)
  next
    case (Some pw)
    show ?thesis
    proof (cases "accepts srv (host self) (db self) (user self) pw")
      case True
      then have "snd (open_db srv s) =
          (self\<lparr>conn := Some (length (conns p1))\<rparr>, p1\<lparr>conns := conns p1 @ [True]\<rparr>)"
        using Some by (simp add: s open_db_def p1_def Let_def)
      then show ?thesis
        using grown len by (simp add: sole_owner_def)
    next
      case False
      then have "snd (open_db srv s) = (self, p1)"
        using Some by (simp add: s open_db_def p1_def Let_def)
      then show ?thesis
        using closed len held by (auto simp: sole_owner_def replicate_update_False split: option.splits)
    qed
  qed
qed

lemma conn_cursor_state: "snd (conn_cursor s) = s"
  by (cases s) (simp add: conn_cursor_def split: option.splits)

lemma sole_owner_cursor: "sole_owner s \<Longrightarrow> sole_owner (snd (cursor srv s))"
proof -
  assume inv: "sole_owner s"
  obtain self p where s: "s = (self, p)" by (cases s)
  show ?thesis
  proof (cases "conn self")
    case None
    obtain r s1 where o: "open_db srv s = (r, s1)" by (cases "open_db srv s")
    have "sole_owner s1" using sole_owner_open_db [OF inv, of srv] o by simp
    moreover have "snd (cursor srv s) = s1"
      using None o conn_cursor_state [of s1]
      by (cases r) (simp_all add: s cursor_def seq_def)
    ultimately show ?thesis by simp
  next
    case (Some c)
    then have "snd (cursor srv s) = s"
      using conn_cursor_state [of s] by (simp add: s cursor_def seq_def ok_def)
    then show ?thesis using inv by simp
  qed
qed

lemma execute_state: "snd (execute srv q s) = snd (cursor srv s)"
  by (simp add: execute_def seq_def split: prod.splits sum.splits)

lemma sole_owner_close: "sole_owner s \<Longrightarrow> sole_owner (close s)"
  by (cases s) (auto simp: sole_owner_def close_def close_conn_def split: option.splits)

lemma sole_owner_perform: "sole_owner s \<Longrightarrow> sole_owner (perform srv c s)"
  by (cases c)
    (simp_all add: sole_owner_open_db sole_owner_cursor sole_owner_close execute_state)

lemma sole_owner_perform_all: "sole_owner s \<Longrightarrow> sole_owner (perform_all srv cs s)"
  by (induction cs arbitrary: s) (simp_all add: sole_owner_perform)

lemma open_db_closes_prior:
  assumes "sole_owner s" and "conn (fst s) = Some c"
  shows "\<not> is_open (snd (snd (open_db srv s))) c"
proof -
  obtain self p where s: "s = (self, p)" by (cases s)
  have c: "c < length (conns p)" using assms by (simp add: s sole_owner_def)
  show ?thesis
    using assms(2) c
    by (simp add: s open_db_def Let_def close_conn_def is_open_def nth_append
        split: option.splits)
qed

lemma cursor_keeps_open:
  assumes "conn (fst s) = Some c" and "is_open (snd s) c"
  shows "cursor srv s = (Inr c, s)"
  using assms by (cases s) (simp add: cursor_def seq_def ok_def conn_cursor_def)

lemma cursor_opens_lazily:
  assumes "conn (fst s) = None" and "ready srv s"
  shows "cursor srv s = (Inr (length (conns (snd s))), connected s)"
  using assms
  by (cases s)
    (auto simp: cursor_def seq_def open_db_def conn_cursor_def ready_def connected_def
      is_open_def nth_append split: option.splits)

text \<open>
  C8. A manager keeps at most one open connection. From a state in which every
  connection other than the manager's own is closed, any sequence of calls of
  \<^verbatim>\<open>open_db\<close>, \<^verbatim>\<open>cursor\<close>, \<^verbatim>\<open>execute\<close> and \<^verbatim>\<open>close\<close> leaves at most one connection
  open. A \<^verbatim>\<open>cursor\<close> or \<^verbatim>\<open>execute\<close> call on a manager that holds an open connection
  uses it and opens nothing; on a manager that holds none it opens one, which is then
  the only open one. And \<^verbatim>\<open>open_db\<close> closes the connection held before, whether or not
  a new one is made.
\<close>

theorem one_live_connection:
  assumes "sole_owner s"
  shows "live_count (snd (perform_all srv cs s)) \<le> 1 \<and>
         (\<forall>c. conn (fst s) = Some c \<and> is_open (snd s) c \<longrightarrow>
              cursor srv s = (Inr c, s) \<and> execute srv q s = (answer srv q, s)) \<and>
         (conn (fst s) = None \<and> ready srv s \<longrightarrow>
              cursor srv s = (Inr (length (conns (snd s))), connected s) \<and>
              live_count (snd (connected s)) = 1) \<and>
         (\<forall>c. conn (fst s) = Some c \<longrightarrow> \<not> is_open (snd (snd (open_db srv s))) c)"
proof -
  have a: "live_count (snd (perform_all srv cs s)) \<le> 1"
    using sole_owner_perform_all [OF assms] by (rule sole_owner_live_count)
  have b: "cursor srv s = (Inr c, s) \<and> execute srv q s = (answer srv q, s)"
    if "conn (fst s) = Some c" and "is_open (snd s) c" for c
    using cursor_keeps_open [OF that] by (simp add: execute_def seq_def)
  have c: "cursor srv s = (Inr (length (conns (snd s))), connected s) \<and>
      live_count (snd (connected s)) = 1"
    if "conn (fst s) = None" and "ready srv s"
  proof -
    obtain self p where s: "s = (self, p)" by (cases s)
    have "conns p = replicate (length (conns p)) False"
      using assms that(1) by (simp add: s sole_owner_def)
    then have "count_list (conns p) True = 0"
      using count_replicate_False by metis
    then have "live_count (snd (connected s)) = 1"
      using that(1) by (simp add: s connected_def live_count_def)
    then show ?thesis using cursor_opens_lazily [OF that] by simp
  qed
  have d: "\<not> is_open (snd (snd (open_db srv s))) c" if "conn (fst s) = Some c" for c
    using open_db_closes_prior [OF assms that] .
  show ?thesis using a b c d by blast
qed

theorem one_live_connection_witness:
  "sole_owner (asking None, terminal []) \<and>
   live_count (snd (perform_all shop [Cursor, Open_db, Execute (Select_tables ''public''), Open_db]
      (asking None, terminal []))) \<le> 1 \<and>
   conn (fst (asking None, terminal [])) = None \<and> ready shop (asking None, terminal []) \<and>
   cursor shop (asking None, terminal []) = (Inr 0, connected (asking None, terminal [])) \<and>
   live_count (snd (connected (asking None, terminal []))) = 1"
proof -
  let ?s = "(asking None, terminal [])"
  let ?cs = "[Cursor, Open_db, Execute (Select_tables ''public''), Open_db]"
  have h: "sole_owner ?s" by (simp add: sole_owner_def asking_def terminal_def)
  have c: "conn (fst ?s) = None" by (simp add: asking_def)
  have r: "ready shop ?s" by (simp add: ready_def asking_def shop_def)
  have n: "length (conns (snd ?s)) = 0" by (simp add: terminal_def)
  note all = one_live_connection [OF h, of shop ?cs "Select_tables ''public''"]
  have a: "live_count (snd (perform_all shop ?cs ?s)) \<le> 1"
    using all by (rule conjunct1)
  have b: "cursor shop ?s = (Inr (length (conns (snd ?s))), connected ?s) \<and>
      live_count (snd (connected ?s)) = 1"
    using all c r by blast
  have b1: "cursor shop ?s = (Inr 0, connected ?s)"
    using b n by simp
  have b2: "live_count (snd (connected ?s)) = 1"
    using b by (rule conjunct2)
  show ?thesis
    using h a c r b1 b2 by blast
qed

subsection \<open>The document\<close>

text \<open>
  C9. For the resolved tables \<open>a\<close> and \<open>b\<close> with the columns \<open>col1\<close>, \<open>col2\<close> and
  \<open>col3\<close>, the script writes a document of exactly two sheets, named \<open>a\<close> and \<open>b\<close>,
  each of one row, with two cells and one cell, every cell a text cell holding the
  column name, in the order \<^verbatim>\<open>column_list\<close> returned them.
\<close>

theorem main_writes_two_sheets:
  "(case main two_tables
           \<lparr>output_file = ''out.ods'', arg_host = ''env3'', arg_database = ''d'',
            arg_schema = ''s'', arg_username = ''u'', arg_table_list = None,
            arg_x_columns = None\<rparr>
           (terminal [''pw'']) of
      (r, p) \<Rightarrow> r = Inr () \<and>
        fs p ''out.ods'' = Document
          [\<lparr>name = ''a'',
            rows = [[\<lparr>valuetype = ''string'', stringvalue = ''col1''\<rparr>,
                     \<lparr>valuetype = ''string'', stringvalue = ''col2''\<rparr>]]\<rparr>,
           \<lparr>name = ''b'',
            rows = [[\<lparr>valuetype = ''string'', stringvalue = ''col3''\<rparr>]]\<rparr>])"
  by (simp add: run_defs two_tables_def)

end
